theory Spec2Isabelle
  imports Complex_Main
begin

section \<open>Strings and truthiness\<close>

text \<open>
  A JavaScript string is a sequence of code units; \<^verbatim>\<open>length\<close>, \<^verbatim>\<open>startsWith\<close> and
  \<^verbatim>\<open>slice\<close> all count code units, so a list of characters models them exactly.

  \<^verbatim>\<open>s.startsWith(searchString)\<close> (position 0): false when the search string is longer
  than \<open>s\<close>, otherwise the comparison of the first \<open>length searchString\<close> code units.
  \<^verbatim>\<open>s.slice(start)\<close> with a non-negative start (here always a length) is the rest of
  \<open>s\<close> from \<open>start\<close> on, empty when \<open>start\<close> is past the end.
\<close>

definition startsWith :: "string \<Rightarrow> string \<Rightarrow> bool" where
  "startsWith s searchString =
     (if length s < length searchString then False
      else take (length searchString) s = searchString)"

definition slice :: "string \<Rightarrow> nat \<Rightarrow> string" where
  "slice s start = drop start s"

text \<open>
  An optional string field (\<^verbatim>\<open>kg_path?: string\<close>) used as a condition: \<^verbatim>\<open>undefined\<close> and
  the empty string are falsy, every other string is truthy.
\<close>

definition truthy :: "string option \<Rightarrow> bool" where
  "truthy v = (case v of None \<Rightarrow> False | Some s \<Rightarrow> s \<noteq> [])"

section \<open>The log reconciler\<close>

text \<open>
  The updater passed to \<^verbatim>\<open>setLogText\<close> in \<^verbatim>\<open>RunDetail.tsx\<close> (lines 28 to 34):
  \<^verbatim>\<open>(prev) => { const incoming = logResp.log;
              if (incoming.startsWith(prev)) { return prev + incoming.slice(prev.length); }
              return incoming; }\<close>
\<close>

definition reconcile :: "string \<Rightarrow> string \<Rightarrow> string" where
  "reconcile prev incoming =
     (if startsWith incoming prev then prev @ slice incoming (length prev)
      else incoming)"

text \<open>A list of snapshots in which each one starts with the one before it.\<close>

fun prefix_chain :: "string list \<Rightarrow> bool" where
  "prefix_chain [] = True"
| "prefix_chain [l] = True"
| "prefix_chain (l # l' # ls) = (startsWith l' l \<and> prefix_chain (l' # ls))"

section \<open>Data model (\<^verbatim>\<open>types.ts\<close>)\<close>

text \<open>
  Row counts are whole numbers and are modelled as integers; the other numeric fields are
  only carried, never computed on, and are modelled as rationals. Optional fields are
  options. The fields named \<^verbatim>\<open>error\<close> of a run and of a row are suffixed, since the
  component state has an \<^verbatim>\<open>error\<close> of its own.
\<close>

record run_config =
  data_file :: string
  sector_map :: string
  max_workers :: int
  chunk_size :: int
  timeout :: int

record run_record =
  run_id :: string
  config :: run_config
  status :: string
  created_at :: rat
  finished_at :: "rat option"
  total_rows :: "int option"
  completed_rows :: int
  results_csv :: "string option"
  kg_path :: "string option"
  run_error :: "string option"

record result_row =
  ticker :: string
  quarter :: string
  predicted_direction :: string
  direction_score :: "rat + string"
  actual_return :: rat
  row_error :: "string option"

section \<open>Transport client (\<^verbatim>\<open>api.ts\<close>)\<close>

text \<open>
  What the network does to one request: \<^verbatim>\<open>fetch\<close> either rejects with an error message
  (\<open>Inl\<close>) or resolves to a response. Of a response the client reads \<^verbatim>\<open>ok\<close>, the body as
  text, \<^verbatim>\<open>statusText\<close>, and the body parsed as JSON (which may throw).
\<close>

record 'a response =
  ok :: bool
  body_text :: string
  statusText :: string
  body_json :: "string + 'a"

text \<open>
  \<^verbatim>\<open>handle\<close>: a response that is not ok throws \<^verbatim>\<open>new Error(payload || resp.statusText)\<close>;
  otherwise the parsed body is returned.
\<close>

definition handle :: "'a response \<Rightarrow> string + 'a" where
  "handle resp =
     (if \<not> ok resp
      then Inl (if body_text resp \<noteq> [] then body_text resp else statusText resp)
      else body_json resp)"

definition request :: "string + 'a response \<Rightarrow> string + 'a" where
  "request net = (case net of Inl msg \<Rightarrow> Inl msg | Inr resp \<Rightarrow> handle resp)"

definition fetchRun :: "string + (run_record option) response \<Rightarrow> string + run_record option" where
  "fetchRun net = request net"

definition fetchLog :: "string + string response \<Rightarrow> string + string" where
  "fetchLog net = request net"

definition fetchResults :: "string + (result_row list) response \<Rightarrow> string + result_row list" where
  "fetchResults net = request net"

definition clearHistory :: "string + 'a response \<Rightarrow> string + 'a" where
  "clearHistory net = request net"

section \<open>The run poller (\<^verbatim>\<open>RunDetail.tsx\<close>)\<close>

text \<open>The component state: the five \<^verbatim>\<open>useState\<close> cells with their initial values.\<close>

record detail_state =
  run :: "run_record option"
  results :: "result_row list"
  logText :: string
  error :: "string option"
  kgUrl :: string

definition initial_state :: detail_state where
  "initial_state = \<lparr>run = None, results = [], logText = [], error = None, kgUrl = []\<rparr>"

text \<open>
  One poll cycle awaits \<^verbatim>\<open>Promise.all\<close> of the three requests. The record holds what
  each of the three promises settles to (\<open>Inl\<close> a rejection with its message; \<^verbatim>\<open>runResp.run\<close>
  may be missing, hence the option) and the order in which they settle.
  \<^verbatim>\<open>Promise.all\<close> fulfils with the three values when all three fulfil, and otherwise
  rejects with the reason of the promise that rejected first.
\<close>

datatype fetch_id = FRun | FLog | FResults

record fetches =
  runResp :: "string + run_record option"
  logResp :: "string + string"
  resultResp :: "string + result_row list"
  settled :: "fetch_id list"

definition rejection :: "fetches \<Rightarrow> fetch_id \<Rightarrow> string option" where
  "rejection f i =
     (case i of
        FRun \<Rightarrow> (case runResp f of Inl m \<Rightarrow> Some m | Inr _ \<Rightarrow> None)
      | FLog \<Rightarrow> (case logResp f of Inl m \<Rightarrow> Some m | Inr _ \<Rightarrow> None)
      | FResults \<Rightarrow> (case resultResp f of Inl m \<Rightarrow> Some m | Inr _ \<Rightarrow> None))"

fun first_rejection :: "fetches \<Rightarrow> fetch_id list \<Rightarrow> string option" where
  "first_rejection f [] = None"
| "first_rejection f (i # is) =
     (case rejection f i of Some m \<Rightarrow> Some m | None \<Rightarrow> first_rejection f is)"

definition promise_all ::
  "fetches \<Rightarrow> string + (run_record option \<times> string \<times> result_row list)" where
  "promise_all f =
     (case first_rejection f (settled f @ [FRun, FLog, FResults]) of
        Some m \<Rightarrow> Inl m
      | None \<Rightarrow>
          (case (runResp f, logResp f, resultResp f) of
             (Inr r, Inr l, Inr rows) \<Rightarrow> Inr (r, l, rows)
           | _ \<Rightarrow> Inl []))"

text \<open>The access path of the knowledge graph: \<^verbatim>\<open>`/api/runs/${runId}/kg`\<close>.\<close>

definition kg_url :: "string \<Rightarrow> string" where
  "kg_url runId = ''/api/runs/'' @ runId @ ''/kg''"

text \<open>The guard of line 25: \<^verbatim>\<open>runResp.run?.kg_path && !kgUrl\<close>.\<close>

definition kg_guard :: "run_record option \<Rightarrow> string \<Rightarrow> bool" where
  "kg_guard r kgUrl_seen =
     ((case r of None \<Rightarrow> False | Some rec \<Rightarrow> truthy (kg_path rec)) \<and> kgUrl_seen = [])"

text \<open>
  \<^verbatim>\<open>poll\<close>: the body of one cycle once the three promises have settled. \<open>runId\<close> and
  \<open>kgUrl_seen\<close> are the values the closure captured when the effect ran; the setters act
  on the current component state. A rejection is caught and only sets \<^verbatim>\<open>error\<close>.
\<close>

definition poll :: "string \<Rightarrow> string \<Rightarrow> fetches \<Rightarrow> detail_state \<Rightarrow> detail_state" where
  "poll runId kgUrl_seen f s =
     (case promise_all f of
        Inr (r, incoming, rows) \<Rightarrow>
          (let s1 = s\<lparr>run := r\<rparr>;
               s2 = (if kg_guard r kgUrl_seen then s1\<lparr>kgUrl := kg_url runId\<rparr> else s1);
               s3 = s2\<lparr>logText := reconcile (logText s2) incoming\<rparr>
           in s3\<lparr>results := rows\<rparr>)
      | Inl msg \<Rightarrow> s\<lparr>error := Some msg\<rparr>)"

text \<open>
  Successive cycles that settle one after the other. The effect depends on
  \<^verbatim>\<open>[runId, kgUrl]\<close>, so it is re-created whenever \<^verbatim>\<open>kgUrl\<close> changes and each cycle's
  closure sees the current \<^verbatim>\<open>kgUrl\<close>.
\<close>

fun run_cycles :: "string \<Rightarrow> detail_state \<Rightarrow> fetches list \<Rightarrow> detail_state" where
  "run_cycles runId s [] = s"
| "run_cycles runId s (f # fs) = run_cycles runId (poll runId (kgUrl s) f s) fs"

text \<open>
  The effect and its cleanup, as one poller: the component state it writes to, whether its
  interval timer is registered, the closure of its \<^verbatim>\<open>poll\<close>, and how many calls of
  \<^verbatim>\<open>poll\<close> are waiting for their fetches. The effect returns at once when \<^verbatim>\<open>runId\<close> is
  missing; otherwise it calls \<^verbatim>\<open>poll()\<close> and registers the timer. A timer tick calls
  \<^verbatim>\<open>poll\<close> again; a settling cycle runs the rest of \<^verbatim>\<open>poll\<close> on the current state; the
  cleanup is \<^verbatim>\<open>clearInterval(timer)\<close> and nothing else. The cleanup runs when the
  component unmounts and also, with the component still mounted, whenever \<^verbatim>\<open>runId\<close> or
  \<^verbatim>\<open>kgUrl\<close> changes; the model is of the second case, where the setters take effect.
\<close>

record poller =
  view :: detail_state
  timer :: bool
  closure_runId :: string
  closure_kgUrl :: string
  in_flight :: nat

datatype event = Tick | Settle fetches | Cleanup

definition effect :: "string \<Rightarrow> detail_state \<Rightarrow> poller" where
  "effect runId s =
     (if runId = []
      then \<lparr>view = s, timer = False, closure_runId = runId, closure_kgUrl = kgUrl s,
            in_flight = 0\<rparr>
      else \<lparr>view = s, timer = True, closure_runId = runId, closure_kgUrl = kgUrl s,
            in_flight = 1\<rparr>)"

fun step :: "poller \<Rightarrow> event \<Rightarrow> poller" where
  "step p Tick = (if timer p then p\<lparr>in_flight := Suc (in_flight p)\<rparr> else p)"
| "step p (Settle f) =
     (if in_flight p = 0 then p
      else p\<lparr>view := poll (closure_runId p) (closure_kgUrl p) f (view p),
             in_flight := in_flight p - 1\<rparr>)"
| "step p Cleanup = p\<lparr>timer := False\<rparr>"

fun steps :: "poller \<Rightarrow> event list \<Rightarrow> poller" where
  "steps p [] = p"
| "steps p (e # es) = steps (step p e) es"

section \<open>View projection (\<^verbatim>\<open>RunDetail.tsx\<close>, the rendered tree)\<close>

text \<open>
  The progress line and bar (lines 62 to 65):
  \<^verbatim>\<open>{run.completed_rows}/{run.total_rows ?? '?'}\<close> and
  \<^verbatim>\<open><progress value={run.completed_rows} max={run.total_rows ?? 1} />\<close>.
  \<^verbatim>\<open>??\<close> replaces only a missing value, not zero.
\<close>

datatype jsx_child = JNum int | JStr string

definition progress_label :: "run_record \<Rightarrow> jsx_child list" where
  "progress_label r =
     [JNum (completed_rows r), JStr ''/'',
      (case total_rows r of None \<Rightarrow> JStr ''?'' | Some t \<Rightarrow> JNum t)]"

record progress_element =
  value_attr :: "int option"
  max_attr :: "int option"

definition progress_bar :: "run_record \<Rightarrow> progress_element" where
  "progress_bar r =
     \<lparr>value_attr = Some (completed_rows r),
      max_attr = Some (case total_rows r of None \<Rightarrow> 1 | Some t \<Rightarrow> t)\<rparr>"

text \<open>
  What a \<^verbatim>\<open>progress\<close> element shows is fixed by the HTML standard, not by this repository:
  without a \<^verbatim>\<open>value\<close> attribute the bar is indeterminate; otherwise the maximum is the
  \<^verbatim>\<open>max\<close> attribute when that is greater than zero and 1 if not, the current value is the
  \<^verbatim>\<open>value\<close> attribute brought into the range from 0 to the maximum, and the position is
  their quotient.
\<close>

datatype progress_fraction = Indeterminate | Position rat

definition html_progress :: "progress_element \<Rightarrow> progress_fraction" where
  "html_progress e =
     (case value_attr e of
        None \<Rightarrow> Indeterminate
      | Some v \<Rightarrow>
          (let m = (case max_attr e of
                      None \<Rightarrow> 1
                    | Some m' \<Rightarrow> if 0 < m' then m' else 1);
               cur = (if m < v then m else if 0 < v then v else 0)
           in Position (of_int cur / of_int m)))"

text \<open>
  The progress fraction in the words of the specification, for comparison: indeterminate
  when \<^verbatim>\<open>total_rows\<close> is absent or zero, otherwise \<^verbatim>\<open>completed_rows / total_rows\<close> clamped
  to the unit interval.
\<close>

definition spec_progress_fraction :: "run_record \<Rightarrow> progress_fraction" where
  "spec_progress_fraction r =
     (case total_rows r of
        None \<Rightarrow> Indeterminate
      | Some t \<Rightarrow>
          if t = 0 then Indeterminate
          else Position (max 0 (min 1 (of_int (completed_rows r) / of_int t))))"




section \<open>Run list cache (\<^verbatim>\<open>Dashboard.tsx\<close>)\<close>

text \<open>
  Of the dashboard's state the clear-history handler (lines 188 to 196) touches two
  cells, the run list and the error message:
  \<^verbatim>\<open>setError(null); try { await clearHistory(); setRuns([]); }
   catch (err) { setError((err as Error).message); }\<close>
\<close>

record dashboard_state =
  runs :: "run_record list"
  dash_error :: "string option"

definition clearHistory_onClick ::
  "string + 'a response \<Rightarrow> dashboard_state \<Rightarrow> dashboard_state" where
  "clearHistory_onClick net s =
     (let s1 = s\<lparr>dash_error := None\<rparr>
      in case clearHistory net of
           Inr _ \<Rightarrow> s1\<lparr>runs := []\<rparr>
         | Inl msg \<Rightarrow> s1\<lparr>dash_error := Some msg\<rparr>)"

section \<open>Example inputs\<close>

text \<open>Concrete records and cycles on which the theorems below are exercised.\<close>

definition sample_config :: run_config where
  "sample_config =
     \<lparr>data_file = ''calls.csv'', sector_map = ''sectors.csv'', max_workers = 10,
      chunk_size = 300, timeout = 120\<rparr>"

definition sample_run :: "string \<Rightarrow> int option \<Rightarrow> int \<Rightarrow> string option \<Rightarrow> run_record" where
  "sample_run st tot cmpl kg =
     \<lparr>run_id = ''r1'', config = sample_config, status = st, created_at = 0,
      finished_at = None, total_rows = tot, completed_rows = cmpl, results_csv = None,
      kg_path = kg, run_error = None\<rparr>"

text \<open>A cycle whose three fetches all fulfil, and one whose log fetch rejects first.\<close>

definition fulfilled :: "run_record option \<Rightarrow> string \<Rightarrow> result_row list \<Rightarrow> fetches" where
  "fulfilled r l rows =
     \<lparr>runResp = Inr r, logResp = Inr l, resultResp = Inr rows,
      settled = [FRun, FLog, FResults]\<rparr>"

definition log_rejected :: "string \<Rightarrow> fetches" where
  "log_rejected msg =
     \<lparr>runResp = Inr None, logResp = Inl msg, resultResp = Inr [],
      settled = [FLog, FRun, FResults]\<rparr>"

section \<open>Facts about strings and the reconciler\<close>

lemma startsWith_iff: "startsWith s p \<longleftrightarrow> (\<exists>t. s = p @ t)"
proof
  assume "startsWith s p"
  then have "take (length p) s = p"
    by (simp add: startsWith_def split: if_splits)
  then have "s = p @ drop (length p) s"
    by (metis append_take_drop_id)
  then show "\<exists>t. s = p @ t" ..
next
  assume "\<exists>t. s = p @ t"
  then show "startsWith s p"
    by (auto simp: startsWith_def)
qed

lemma startsWith_rebuild: "startsWith s p \<Longrightarrow> p @ slice s (length p) = s"
  by (auto simp: startsWith_iff slice_def)

lemma startsWith_empty: "startsWith s []"
  by (simp add: startsWith_def)

lemma startsWith_refl: "startsWith s s"
  by (simp add: startsWith_def)

lemma reconcile_incoming: "reconcile a b = b"
  by (simp add: reconcile_def startsWith_rebuild)

section \<open>Facts about one poll cycle\<close>

lemma first_rejection_None:
  "first_rejection f is = None \<longleftrightarrow> (\<forall>i \<in> set is. rejection f i = None)"
  by (induction "is") (auto split: option.splits)

lemma promise_all_Inr_iff:
  "promise_all f = Inr (r, l, rows) \<longleftrightarrow>
     runResp f = Inr r \<and> logResp f = Inr l \<and> resultResp f = Inr rows"
proof
  assume a: "promise_all f = Inr (r, l, rows)"
  then have n: "first_rejection f (settled f @ [FRun, FLog, FResults]) = None"
    by (auto simp: promise_all_def split: option.splits)
  with a show "runResp f = Inr r \<and> logResp f = Inr l \<and> resultResp f = Inr rows"
    by (auto simp: promise_all_def split: sum.splits)
next
  assume a: "runResp f = Inr r \<and> logResp f = Inr l \<and> resultResp f = Inr rows"
  then have "\<forall>i. rejection f i = None"
    by (auto simp: rejection_def split: fetch_id.splits)
  then have "first_rejection f (settled f @ [FRun, FLog, FResults]) = None"
    by (simp add: first_rejection_None)
  with a show "promise_all f = Inr (r, l, rows)"
    by (simp add: promise_all_def)
qed

lemma promise_all_rejects:
  assumes "isl (runResp f) \<or> isl (logResp f) \<or> isl (resultResp f)"
  shows "\<exists>m. promise_all f = Inl m"
proof (cases "promise_all f")
  case (Inl m)
  then show ?thesis by blast
next
  case (Inr v)
  obtain r l rows where "v = (r, l, rows)" by (cases v) auto
  with Inr have "runResp f = Inr r \<and> logResp f = Inr l \<and> resultResp f = Inr rows"
    by (simp add: promise_all_Inr_iff)
  with assms show ?thesis by auto
qed

lemma first_rejection_Some:
  "first_rejection f is = Some m \<Longrightarrow> \<exists>i \<in> set is. rejection f i = Some m"
  by (induction "is") (auto split: option.splits)

text \<open>A rejection of \<^verbatim>\<open>Promise.all\<close> carries the message of one of the three fetches.\<close>

lemma promise_all_Inl_reason:
  assumes "promise_all f = Inl m"
  shows "\<exists>i. rejection f i = Some m"
proof (cases "first_rejection f (settled f @ [FRun, FLog, FResults])")
  case None
  then have "\<forall>i. rejection f i = None"
    by (auto simp: first_rejection_None) (metis fetch_id.exhaust)
  then have "\<not> isl (runResp f) \<and> \<not> isl (logResp f) \<and> \<not> isl (resultResp f)"
    by (metis promise_all_rejects assms None option.distinct(1) sum.disc(1)
        rejection_def fetch_id.case sum.case(1) sum.collapse(1))
  then obtain r l rows where "runResp f = Inr r" "logResp f = Inr l" "resultResp f = Inr rows"
    by (metis sum.collapse(2))
  then have "promise_all f = Inr (r, l, rows)"
    by (simp add: promise_all_Inr_iff)
  with assms show ?thesis by simp
next
  case (Some m')
  with assms have "m' = m" by (simp add: promise_all_def)
  with Some show ?thesis using first_rejection_Some by blast
qed

lemma poll_fulfilled:
  "promise_all f = Inr (r, l, rows) \<Longrightarrow>
   poll runId k f s =
     s\<lparr>run := r, kgUrl := (if kg_guard r k then kg_url runId else kgUrl s),
       logText := l, results := rows\<rparr>"
  by (simp add: poll_def Let_def reconcile_incoming)

lemma poll_rejected: "promise_all f = Inl m \<Longrightarrow> poll runId k f s = s\<lparr>error := Some m\<rparr>"
  by (simp add: poll_def)

lemma promise_all_fulfilled: "promise_all (fulfilled r l rows) = Inr (r, l, rows)"
  by (simp add: promise_all_Inr_iff fulfilled_def)

lemma promise_all_log_rejected: "promise_all (log_rejected msg) = Inl msg"
  by (simp add: promise_all_def log_rejected_def rejection_def)

lemma logText_poll_fulfilled:
  assumes "\<not> isl (runResp f)" "logResp f = Inr L" "\<not> isl (resultResp f)"
  shows "logText (poll runId k f s) = L"
proof -
  from assms obtain r rows where "runResp f = Inr r" "resultResp f = Inr rows"
    by (metis sum.collapse(2))
  with assms have "promise_all f = Inr (r, L, rows)"
    by (simp add: promise_all_Inr_iff)
  then show ?thesis by (simp add: poll_fulfilled)
qed

lemma logText_run_cycles:
  assumes "list_all2 (\<lambda>f L. \<not> isl (runResp f) \<and> logResp f = Inr L \<and> \<not> isl (resultResp f)) fs Ls"
      and "Ls \<noteq> []"
  shows "logText (run_cycles runId s fs) = last Ls"
  using assms
proof (induction fs Ls arbitrary: s rule: list_all2_induct)
  case Nil
  then show ?case by simp
next
  case (Cons f fs L Ls)
  show ?case
  proof (cases "Ls = []")
    case True
    with Cons.hyps have "fs = []" by simp
    with True Cons.hyps show ?thesis by (simp add: logText_poll_fulfilled)
  next
    case False
    with Cons.IH show ?thesis by simp
  qed
qed

section \<open>The log reconciler: claims\<close>

text \<open>
  C1. When \<open>incoming\<close> starts with \<open>previous\<close> (the empty \<open>previous\<close> included), the
  reconciler returns \<open>previous\<close> followed by the part of \<open>incoming\<close> past the length of
  \<open>previous\<close>, and that is \<open>incoming\<close>; in particular reconciling the empty buffer with
  \<open>b\<close> gives \<open>b\<close>.
\<close>

theorem reconcile_prefix_extension:
  "(startsWith incoming previous \<longrightarrow>
      reconcile previous incoming = previous @ slice incoming (length previous) \<and>
      reconcile previous incoming = incoming) \<and>
   startsWith b [] \<and> reconcile [] b = b"
  by (simp add: reconcile_def startsWith_rebuild startsWith_empty slice_def [of _ 0])

theorem reconcile_prefix_extension_witness:
  "startsWith ''abcd'' ''ab'' \<and>
   reconcile ''ab'' ''abcd'' = ''ab'' @ slice ''abcd'' (length ''ab'') \<and>
   reconcile ''ab'' ''abcd'' = ''abcd'' \<and> reconcile [] ''abcd'' = ''abcd''"
  using reconcile_prefix_extension [of "''abcd''" "''ab''" "''abcd''"]
  by (simp add: startsWith_def reconcile_def slice_def)

text \<open>
  C2, as stated, fails. Replacing the buffer \<open>''abc''\<close> by the snapshot \<open>''xyz''\<close> (not an
  extension) leaves exactly the component state that extending the buffer \<open>''x''\<close> to
  \<open>''xyz''\<close> leaves, and the error cell stays empty: nothing flags the replacement.
\<close>

theorem replacement_not_signalled_counterexample:
  "\<not> startsWith ''xyz'' ''abc'' \<and> startsWith ''xyz'' ''x'' \<and>
   poll ''r1'' [] (fulfilled None ''xyz'' []) (initial_state\<lparr>logText := ''abc''\<rparr>) =
   poll ''r1'' [] (fulfilled None ''xyz'' []) (initial_state\<lparr>logText := ''x''\<rparr>) \<and>
   error (poll ''r1'' [] (fulfilled None ''xyz'' []) (initial_state\<lparr>logText := ''abc''\<rparr>))
     = None"
  by (simp add: poll_fulfilled [OF promise_all_fulfilled] startsWith_def initial_state_def)

text \<open>
  C2, amended. When \<open>incoming\<close> does not start with a non-empty \<open>previous\<close>, the
  reconciler returns \<open>incoming\<close> verbatim, and the event is not signalled: the state a
  successful cycle leaves does not depend on the buffer it replaced, and the error cell
  is untouched.
\<close>

theorem replacement_without_signal:
  "\<not> startsWith incoming previous \<and> previous \<noteq> [] \<longrightarrow>
     reconcile previous incoming = incoming \<and>
     (promise_all f = Inr (r, incoming, rows) \<longrightarrow>
        poll runId k f (s\<lparr>logText := previous\<rparr>) = poll runId k f (s\<lparr>logText := other\<rparr>) \<and>
        error (poll runId k f (s\<lparr>logText := previous\<rparr>)) = error s)"
  by (simp add: reconcile_incoming poll_fulfilled)

theorem replacement_without_signal_witness:
  "\<not> startsWith ''xyz'' ''abc'' \<and> ''abc'' \<noteq> [] \<and>
   promise_all (fulfilled None ''xyz'' []) = Inr (None, ''xyz'', []) \<and>
   reconcile ''abc'' ''xyz'' = ''xyz'' \<and>
   poll ''r1'' [] (fulfilled None ''xyz'' []) (initial_state\<lparr>logText := ''abc''\<rparr>) =
   poll ''r1'' [] (fulfilled None ''xyz'' []) (initial_state\<lparr>logText := ''x''\<rparr>) \<and>
   error (poll ''r1'' [] (fulfilled None ''xyz'' []) (initial_state\<lparr>logText := ''abc''\<rparr>))
     = error initial_state"
  using replacement_without_signal [of "''xyz''" "''abc''" "fulfilled None ''xyz'' []" None "[]"
      "''r1''" "[]" initial_state "''x''"]
  by (simp add: promise_all_fulfilled poll_fulfilled [OF promise_all_fulfilled]
      startsWith_def reconcile_incoming)

text \<open>C3. The reconciler is idempotent: reconciling a buffer with itself gives it back.\<close>

theorem reconcile_idempotent: "reconcile x x = x"
  by (simp add: reconcile_def startsWith_refl slice_def)

text \<open>
  C10. For every pair of strings the reconciler returns \<open>incoming\<close>: the function is the
  projection onto its second argument, and on the prefix-extension branch the rebuilt
  string \<open>previous\<close> followed by the rest of \<open>incoming\<close> is \<open>incoming\<close> itself, the value
  the replacement branch returns.
\<close>

theorem reconcile_is_second_projection:
  "reconcile = (\<lambda>previous incoming. incoming) \<and>
   (startsWith incoming previous \<longrightarrow> previous @ slice incoming (length previous) = incoming)"
  by (auto simp: fun_eq_iff reconcile_incoming startsWith_rebuild)

theorem reconcile_is_second_projection_witness:
  "startsWith ''abcd'' ''ab'' \<and> ''ab'' @ slice ''abcd'' (length ''ab'') = ''abcd'' \<and>
   reconcile ''abc'' ''xyz'' = ''xyz''"
  using reconcile_is_second_projection [of "''abcd''" "''ab''"]
  by (simp add: startsWith_def slice_def reconcile_def)

section \<open>The run poller: claims\<close>

text \<open>
  C4. Starting from the empty buffer, after successful cycles whose log snapshots form a
  prefix chain, applied in order, the buffer is the last snapshot.
\<close>

theorem prefix_chain_final_buffer:
  assumes "Ls \<noteq> []" and "prefix_chain Ls"
      and "list_all2 (\<lambda>f L. \<not> isl (runResp f) \<and> logResp f = Inr L \<and> \<not> isl (resultResp f)) fs Ls"
  shows "logText (run_cycles runId initial_state fs) = last Ls"
  using assms by (simp add: logText_run_cycles)

theorem prefix_chain_final_buffer_witness:
  "logText (run_cycles ''r1'' initial_state
     [fulfilled None (''line1'' @ [CHR 0x0A]) [],
      fulfilled None (''line1'' @ [CHR 0x0A] @ ''line2'' @ [CHR 0x0A]) [],
      fulfilled None (''line1'' @ [CHR 0x0A] @ ''line2'' @ [CHR 0x0A] @ ''line3'' @ [CHR 0x0A]) []])
   = ''line1'' @ [CHR 0x0A] @ ''line2'' @ [CHR 0x0A] @ ''line3'' @ [CHR 0x0A]"
proof -
  let ?Ls = "[''line1'' @ [CHR 0x0A], ''line1'' @ [CHR 0x0A] @ ''line2'' @ [CHR 0x0A],
              ''line1'' @ [CHR 0x0A] @ ''line2'' @ [CHR 0x0A] @ ''line3'' @ [CHR 0x0A]]"
  let ?fs = "map (\<lambda>l. fulfilled None l []) ?Ls"
  have ne: "?Ls \<noteq> []" by simp
  have chain: "prefix_chain ?Ls" by (simp add: startsWith_def)
  have ok: "list_all2 (\<lambda>f L. \<not> isl (runResp f) \<and> logResp f = Inr L \<and> \<not> isl (resultResp f))
              ?fs ?Ls"
    by (simp add: fulfilled_def)
  show ?thesis
    using prefix_chain_final_buffer [OF ne chain ok, of "''r1''"] by simp
qed

text \<open>
  Two facts about a single cycle, for C5: a cycle in which one of the three fetches
  rejects only sets the error message, and a cycle in which all three fulfil leaves the
  error message as it was.
\<close>

lemma poll_failure_surfaced:
  assumes "isl (runResp f) \<or> isl (logResp f) \<or> isl (resultResp f)"
  shows "\<exists>m. poll runId k f s = s\<lparr>error := Some m\<rparr>"
  using promise_all_rejects [OF assms] by (auto simp: poll_rejected)

lemma poll_success_keeps_error:
  "promise_all f = Inr v \<Longrightarrow> error (poll runId k f s) = error s"
  by (cases v) (simp add: poll_fulfilled)

text \<open>
  C5 holds for the first two parts (a failed cycle sets the error message and the next
  tick polls again) but the code never resets the message: after a cycle whose log
  fetch is answered with status 500 and body \<open>''boom''\<close>, followed by a cycle in which all
  three fetches succeed, the log is updated and the error message is still \<open>''boom''\<close>.
\<close>

theorem stale_error_after_successful_cycle:
  "fetchLog (Inr \<lparr>ok = False, body_text = ''boom'', statusText = ''Internal Server Error'',
                   body_json = Inl []\<rparr>) = Inl ''boom'' \<and>
   logResp (log_rejected ''boom'') = Inl ''boom'' \<and>
   error (run_cycles ''r1'' initial_state [log_rejected ''boom'']) = Some ''boom'' \<and>
   error (run_cycles ''r1'' initial_state
            [log_rejected ''boom'', fulfilled None ''line1'' []]) = Some ''boom'' \<and>
   logText (run_cycles ''r1'' initial_state
            [log_rejected ''boom'', fulfilled None ''line1'' []]) = ''line1''"
proof -
  have transport: "fetchLog (Inr \<lparr>ok = False, body_text = ''boom'',
      statusText = ''Internal Server Error'', body_json = Inl []\<rparr>) = Inl ''boom''"
    by (simp add: fetchLog_def request_def handle_def)
  have rejected: "logResp (log_rejected ''boom'') = Inl ''boom''"
    by (simp add: log_rejected_def)
  have cycles: "error (run_cycles ''r1'' initial_state [log_rejected ''boom'']) = Some ''boom'' \<and>
     error (run_cycles ''r1'' initial_state
              [log_rejected ''boom'', fulfilled None ''line1'' []]) = Some ''boom'' \<and>
     logText (run_cycles ''r1'' initial_state
              [log_rejected ''boom'', fulfilled None ''line1'' []]) = ''line1''"
    by (simp add: poll_rejected [OF promise_all_log_rejected]
        poll_fulfilled [OF promise_all_fulfilled] initial_state_def)
  from transport rejected cycles show ?thesis by blast
qed

lemma steps_timer_off: "\<not> timer p \<Longrightarrow> \<not> timer (steps p es)"
proof (induction es arbitrary: p)
  case Nil
  then show ?case by simp
next
  case (Cons e es)
  have "\<not> timer (step p e)" using Cons.prems by (cases e) auto
  then show ?case using Cons.IH by simp
qed

lemma steps_in_flight_off: "\<not> timer p \<Longrightarrow> in_flight (steps p es) \<le> in_flight p"
proof (induction es arbitrary: p)
  case Nil
  then show ?case by simp
next
  case (Cons e es)
  have t: "\<not> timer (step p e)" and le: "in_flight (step p e) \<le> in_flight p"
    using Cons.prems by (cases e; auto)+
  from Cons.IH [OF t] le show ?case by simp
qed

text \<open>
  C6, as stated, fails. The first poll of a poller is in flight; the cleanup runs (the
  timer is cleared); then the three fetches fulfil. The run record and the log buffer
  are overwritten after the cleanup.
\<close>

theorem update_after_cleanup_counterexample:
  "\<not> timer (steps (effect ''r1'' initial_state) [Cleanup]) \<and>
   view (steps (effect ''r1'' initial_state) [Cleanup]) = initial_state \<and>
   view (steps (effect ''r1'' initial_state)
           [Cleanup, Settle (fulfilled (Some (sample_run ''running'' (Some 100) 40 None)) ''line1'' [])])
     = initial_state\<lparr>run := Some (sample_run ''running'' (Some 100) 40 None),
                      logText := ''line1''\<rparr> \<and>
   view (steps (effect ''r1'' initial_state)
           [Cleanup, Settle (fulfilled (Some (sample_run ''running'' (Some 100) 40 None)) ''line1'' [])])
     \<noteq> view (steps (effect ''r1'' initial_state) [Cleanup])"
  by (simp add: effect_def poll_fulfilled [OF promise_all_fulfilled] initial_state_def
      kg_guard_def sample_run_def truthy_def)

text \<open>
  C6, amended. The cleanup stops the scheduling of further cycles: after it a tick starts
  nothing, the timer stays off and the number of polls in flight never grows. A poll
  already in flight is not guarded: when its fetches settle, the rest of \<^verbatim>\<open>poll\<close> runs
  on the component state as in any other cycle, so three fulfilled fetches overwrite
  the run record, the log buffer and the result rows.
\<close>

theorem cleanup_stops_scheduling_only:
  "step (step p Cleanup) Tick = step p Cleanup \<and>
   \<not> timer (steps (step p Cleanup) es) \<and>
   in_flight (steps (step p Cleanup) es) \<le> in_flight p \<and>
   (0 < in_flight p \<longrightarrow>
      view (step (step p Cleanup) (Settle f)) =
        poll (closure_runId p) (closure_kgUrl p) f (view p) \<and>
      (\<forall>r l rows. promise_all f = Inr (r, l, rows) \<longrightarrow>
         run (view (step (step p Cleanup) (Settle f))) = r \<and>
         logText (view (step (step p Cleanup) (Settle f))) = l \<and>
         results (view (step (step p Cleanup) (Settle f))) = rows))"
proof -
  have off: "\<not> timer (step p Cleanup)" by simp
  have "in_flight (steps (step p Cleanup) es) \<le> in_flight (step p Cleanup)"
    using off by (rule steps_in_flight_off)
  then have le: "in_flight (steps (step p Cleanup) es) \<le> in_flight p" by simp
  show ?thesis
    using steps_timer_off [OF off] le by (auto simp: poll_fulfilled)
qed

theorem cleanup_stops_scheduling_only_witness:
  "0 < in_flight (effect ''r1'' initial_state) \<and>
   promise_all (fulfilled None ''line1'' []) = Inr (None, ''line1'', []) \<and>
   step (step (effect ''r1'' initial_state) Cleanup) Tick = step (effect ''r1'' initial_state) Cleanup \<and>
   logText (view (step (step (effect ''r1'' initial_state) Cleanup)
                    (Settle (fulfilled None ''line1'' [])))) = ''line1''"
  using cleanup_stops_scheduling_only [of "effect ''r1'' initial_state" "[]" "fulfilled None ''line1'' []"]
  by (simp add: effect_def promise_all_fulfilled)

section \<open>View projection: claims\<close>

lemma html_progress_bar:
  "html_progress (progress_bar r) =
     (let m = (case total_rows r of None \<Rightarrow> 1 | Some t \<Rightarrow> if 0 < t then t else 1);
          v = completed_rows r
      in Position (of_int (if m < v then m else if 0 < v then v else 0) / of_int m))"
  by (simp add: html_progress_def progress_bar_def Let_def split: option.splits)

lemma clamp_quotient:
  fixes v t :: int
  assumes "0 < t"
  shows "(of_int (if t < v then t else if 0 < v then v else 0) :: rat) / of_int t
           = max 0 (min 1 (of_int v / of_int t))"
proof -
  have t: "(0::rat) < of_int t" using assms by simp
  consider "t < v" | "v \<le> t" "0 < v" | "v \<le> 0" by linarith
  then show ?thesis
  proof cases
    case 1
    then have "(1::rat) < of_int v / of_int t" using t by (simp add: pos_less_divide_eq)
    with 1 t show ?thesis by simp
  next
    case 2
    then have "(of_int v :: rat) / of_int t \<le> 1" "(0::rat) < of_int v / of_int t"
      using t by (simp_all add: pos_divide_le_eq)
    with 2 show ?thesis by simp
  next
    case 3
    then have "(of_int v :: rat) / of_int t \<le> 0" using t
      by (simp add: divide_le_0_iff)
    with 3 assms show ?thesis by simp
  qed
qed

text \<open>
  C7, as stated, fails. With \<^verbatim>\<open>total_rows\<close> absent the bar gets \<^verbatim>\<open>max = 1\<close> and a value,
  so it is determinate (at position 0 for no completed rows), where the claim asks for
  an indeterminate one; with \<^verbatim>\<open>total_rows = 0\<close> and three completed rows it is full.
\<close>

theorem progress_not_indeterminate_counterexample:
  "total_rows (sample_run ''queued'' None 0 None) = None \<and>
   spec_progress_fraction (sample_run ''queued'' None 0 None) = Indeterminate \<and>
   html_progress (progress_bar (sample_run ''queued'' None 0 None)) = Position 0 \<and>
   total_rows (sample_run ''running'' (Some 0) 3 None) = Some 0 \<and>
   html_progress (progress_bar (sample_run ''running'' (Some 0) 3 None)) = Position 1"
  by (simp add: sample_run_def spec_progress_fraction_def html_progress_def progress_bar_def)

text \<open>
  C7, amended. The bar always carries \<^verbatim>\<open>value = completed_rows\<close> and is never
  indeterminate. When \<^verbatim>\<open>total_rows\<close> is present and positive, \<^verbatim>\<open>max\<close> is \<^verbatim>\<open>total_rows\<close>
  and the position shown is \<^verbatim>\<open>completed_rows / total_rows\<close> clamped to the unit
  interval, the fraction of the specification. When \<^verbatim>\<open>total_rows\<close> is absent the code
  passes \<^verbatim>\<open>max = 1\<close>; then, and when \<^verbatim>\<open>total_rows\<close> is zero, the bar is full as soon as
  one row is completed and empty before.
\<close>

theorem progress_bar_position:
  "value_attr (progress_bar r) = Some (completed_rows r) \<and>
   html_progress (progress_bar r) \<noteq> Indeterminate \<and>
   (\<forall>t. total_rows r = Some t \<and> 0 < t \<longrightarrow>
      max_attr (progress_bar r) = Some t \<and>
      html_progress (progress_bar r) =
        Position (max 0 (min 1 (of_int (completed_rows r) / of_int t))) \<and>
      html_progress (progress_bar r) = spec_progress_fraction r) \<and>
   (total_rows r = None \<longrightarrow> max_attr (progress_bar r) = Some 1) \<and>
   (total_rows r = None \<or> total_rows r = Some 0 \<longrightarrow>
      html_progress (progress_bar r) = Position (if 0 < completed_rows r then 1 else 0))"
proof -
  have a: "value_attr (progress_bar r) = Some (completed_rows r)"
    by (simp add: progress_bar_def)
  have b: "html_progress (progress_bar r) \<noteq> Indeterminate"
    by (simp add: html_progress_bar Let_def)
  have c: "max_attr (progress_bar r) = Some t \<and>
      html_progress (progress_bar r) =
        Position (max 0 (min 1 (of_int (completed_rows r) / of_int t))) \<and>
      html_progress (progress_bar r) = spec_progress_fraction r"
    if "total_rows r = Some t" "0 < t" for t
  proof -
    have "max_attr (progress_bar r) = Some t"
      using that by (simp add: progress_bar_def)
    moreover have "html_progress (progress_bar r) =
        Position (max 0 (min 1 (of_int (completed_rows r) / of_int t)))"
      using that clamp_quotient [OF that(2), of "completed_rows r"]
      by (simp add: html_progress_bar)
    moreover have "spec_progress_fraction r =
        Position (max 0 (min 1 (of_int (completed_rows r) / of_int t)))"
      using that by (simp add: spec_progress_fraction_def)
    ultimately show ?thesis by simp
  qed
  have d: "total_rows r = None \<longrightarrow> max_attr (progress_bar r) = Some 1"
    by (simp add: progress_bar_def)
  have e: "total_rows r = None \<or> total_rows r = Some 0 \<longrightarrow>
      html_progress (progress_bar r) = Position (if 0 < completed_rows r then 1 else 0)"
  proof -
    have "(if 1 < v then 1 else if 0 < v then v else 0) = (if 0 < v then 1 else 0)"
      for v :: int by auto
    then show ?thesis by (auto simp: html_progress_bar Let_def)
  qed
  from a b c d e show ?thesis by blast
qed

theorem progress_bar_position_witness:
  "total_rows (sample_run ''running'' (Some 100) 40 None) = Some 100 \<and> (0::int) < 100 \<and>
   html_progress (progress_bar (sample_run ''running'' (Some 100) 40 None)) = Position (2 / 5) \<and>
   total_rows (sample_run ''queued'' None 7 None) = None \<and>
   html_progress (progress_bar (sample_run ''queued'' None 7 None)) = Position 1"
  using progress_bar_position [of "sample_run ''running'' (Some 100) 40 None"]
    progress_bar_position [of "sample_run ''queued'' None 7 None"]
  by (simp add: sample_run_def)








section \<open>Run list cache: claims\<close>

text \<open>
  C9. Clearing the history: when the request succeeds the cached run list becomes empty;
  when it fails the run list is unchanged and the error message of the failure is set.
\<close>

theorem clear_history_outcomes:
  "(clearHistory net = Inr v \<longrightarrow>
      runs (clearHistory_onClick net s) = [] \<and> dash_error (clearHistory_onClick net s) = None) \<and>
   (clearHistory net = Inl msg \<longrightarrow>
      runs (clearHistory_onClick net s) = runs s \<and>
      dash_error (clearHistory_onClick net s) = Some msg)"
  by (simp add: clearHistory_onClick_def Let_def)

theorem clear_history_outcomes_witness:
  "clearHistory (Inr \<lparr>ok = True, body_text = ''{}'', statusText = ''OK'', body_json = Inr ()\<rparr>)
     = Inr () \<and>
   runs (clearHistory_onClick
           (Inr \<lparr>ok = True, body_text = ''{}'', statusText = ''OK'', body_json = Inr ()\<rparr>)
           \<lparr>runs = [sample_run ''completed'' (Some 2) 2 None], dash_error = Some ''old''\<rparr>) = [] \<and>
   clearHistory (Inr \<lparr>ok = False, body_text = ''boom'', statusText = ''Internal Server Error'',
                       body_json = Inl ''boom''\<rparr> :: string + unit response) = Inl ''boom'' \<and>
   runs (clearHistory_onClick
           (Inr \<lparr>ok = False, body_text = ''boom'', statusText = ''Internal Server Error'',
                 body_json = Inl ''boom''\<rparr> :: string + unit response)
           \<lparr>runs = [sample_run ''completed'' (Some 2) 2 None], dash_error = None\<rparr>)
     = [sample_run ''completed'' (Some 2) 2 None] \<and>
   dash_error (clearHistory_onClick
           (Inr \<lparr>ok = False, body_text = ''boom'', statusText = ''Internal Server Error'',
                 body_json = Inl ''boom''\<rparr> :: string + unit response)
           \<lparr>runs = [sample_run ''completed'' (Some 2) 2 None], dash_error = None\<rparr>)
     = Some ''boom''"
  using clear_history_outcomes [of "Inr \<lparr>ok = True, body_text = ''{}'', statusText = ''OK'', body_json = Inr ()\<rparr>"
      "()" "\<lparr>runs = [sample_run ''completed'' (Some 2) 2 None], dash_error = Some ''old''\<rparr>"]
    clear_history_outcomes [of "Inr \<lparr>ok = False, body_text = ''boom'', statusText = ''Internal Server Error'',
                 body_json = Inl ''boom''\<rparr> :: string + unit response" _
      "\<lparr>runs = [sample_run ''completed'' (Some 2) 2 None], dash_error = None\<rparr>" "''boom''"]
  by (simp add: clearHistory_def request_def handle_def)

end
